theory Spec2Isabelle
  imports Complex_Main "HOL-Library.Word"
begin

section \<open>The live audio engine of VoiceLab.tsx\<close>

text \<open>
  The development embeds the live-conversation part of \<^verbatim>\<open>src/components/VoiceLab.tsx\<close>:
  the PCM16 quantisation of captured samples (\<^verbatim>\<open>onaudioprocess\<close>), \<^verbatim>\<open>decodeAudioData\<close>,
  the playback scheduling of \<^verbatim>\<open>onmessage\<close>, and the session handlers \<^verbatim>\<open>startLive\<close>,
  \<^verbatim>\<open>stopLive\<close>, \<^verbatim>\<open>onopen\<close>, \<^verbatim>\<open>onclose\<close>, \<^verbatim>\<open>onerror\<close>.

  Conventions of the model.
  \<^item> Samples and clock times are \<^typ>\<open>real\<close>. The arithmetic the handlers perform on
    samples is exact in the source's number types: a Float32 sample times \<open>2^15\<close> is a
    double, and an Int16 divided by \<open>2^15\<close> is a Float32. JavaScript's \<^verbatim>\<open>NaN\<close> and
    infinities are not values of the model.
  \<^item> Typed arrays are lists; an \<^verbatim>\<open>Int16Array\<close> over a byte buffer reads little-endian
    pairs, as every platform the component runs on does.
  \<^item> A thrown exception or a rejected promise is an \<open>Inl\<close> result.
  \<^item> The base64 helpers \<^verbatim>\<open>encode\<close> and \<^verbatim>\<open>decode\<close> wrap the platform's \<^verbatim>\<open>btoa\<close> and
    \<^verbatim>\<open>atob\<close>; the model carries the byte sequences they transport.
\<close>

subsection \<open>Typed arrays and audio buffers\<close>

type_synonym byte = "8 word"
type_synonym int16 = "16 word"

datatype js_error = RangeError | NotSupportedError

record AudioBuffer =
  numberOfChannels :: nat
  sampleRate :: nat
  channelData :: "real list"

text \<open>\<^verbatim>\<open>buffer.duration\<close>: the number of sample frames over the sample rate.\<close>

definition duration :: "AudioBuffer \<Rightarrow> real" where
  "duration b = real (length (channelData b)) / real (sampleRate b)"

text \<open>
  Assigning a number to an \<^verbatim>\<open>Int16Array\<close> element applies \<^verbatim>\<open>ToInt16\<close>: the number is
  truncated towards zero and reduced modulo \<open>2^16\<close> into the signed range. No clamping.
\<close>

definition js_trunc :: "real \<Rightarrow> int" where
  "js_trunc x = (if 0 \<le> x then \<lfloor>x\<rfloor> else \<lceil>x\<rceil>)"

definition ToInt16 :: "real \<Rightarrow> int16" where
  "ToInt16 x = word_of_int (js_trunc x)"

text \<open>
  \<^verbatim>\<open>new Uint8Array(int16.buffer)\<close>: the two bytes of every element, low byte first
  (an element of unsigned value \<open>u\<close> is the bytes \<open>u mod 256\<close> and \<open>u div 256\<close>).
\<close>

definition bytes_of_int16 :: "int16 \<Rightarrow> byte list" where
  "bytes_of_int16 w = [word_of_int (uint w mod 256), word_of_int (uint w div 256)]"

definition Uint8Array_of_Int16Array :: "int16 list \<Rightarrow> byte list" where
  "Uint8Array_of_Int16Array ws = concat (map bytes_of_int16 ws)"

text \<open>
  The body of \<^verbatim>\<open>scriptProcessor.onaudioprocess\<close> up to the bytes handed to the base64
  helper:
  \<^verbatim>\<open>for (i = 0; i < inputData.length; i++) int16[i] = inputData[i] * 32768;\<close>
\<close>

definition onaudioprocess_pcm :: "real list \<Rightarrow> byte list" where
  "onaudioprocess_pcm inputData =
     Uint8Array_of_Int16Array (map (\<lambda>x. ToInt16 (x * 32768)) inputData)"

text \<open>
  \<^verbatim>\<open>new Int16Array(data.buffer)\<close> throws a \<^verbatim>\<open>RangeError\<close> when the byte length of the
  buffer is not a multiple of 2; otherwise element \<open>i\<close> is bytes \<open>2i\<close> (low) and
  \<open>2i+1\<close> (high).
\<close>

fun int16_of_bytes :: "byte list \<Rightarrow> int16 list" where
  "int16_of_bytes (lo # hi # bs) =
     word_of_int (uint lo + 256 * uint hi) # int16_of_bytes bs"
| "int16_of_bytes _ = []"

definition new_Int16Array :: "byte list \<Rightarrow> js_error + int16 list" where
  "new_Int16Array bs =
     (if length bs mod 2 \<noteq> 0 then Inl RangeError else Inr (int16_of_bytes bs))"

text \<open>
  \<^verbatim>\<open>ctx.createBuffer(numberOfChannels, length, sampleRate)\<close> of the Web Audio API: a
  zero-filled buffer; a \<^verbatim>\<open>NotSupportedError\<close> when an argument is zero (the length of a
  buffer must be at least one frame).
\<close>

definition createBuffer :: "nat \<Rightarrow> nat \<Rightarrow> nat \<Rightarrow> js_error + AudioBuffer" where
  "createBuffer channels len rate =
     (if channels = 0 \<or> len = 0 \<or> rate = 0 then Inl NotSupportedError
      else Inr \<lparr>numberOfChannels = channels, sampleRate = rate,
                channelData = replicate len 0\<rparr>)"

text \<open>
  \<^verbatim>\<open>decodeAudioData(data, ctx)\<close>:
  \<^verbatim>\<open>
  const dataInt16 = new Int16Array(data.buffer);
  const buffer = ctx.createBuffer(1, dataInt16.length, 24000);
  const channelData = buffer.getChannelData(0);
  for (let i = 0; i < dataInt16.length; i++) channelData[i] = dataInt16[i] / 32768.0;
  return buffer;
  \<close>
\<close>

definition decodeAudioData :: "byte list \<Rightarrow> js_error + AudioBuffer" where
  "decodeAudioData data =
     (case new_Int16Array data of
        Inl e \<Rightarrow> Inl e
      | Inr dataInt16 \<Rightarrow>
          (case createBuffer 1 (length dataInt16) 24000 of
             Inl e \<Rightarrow> Inl e
           | Inr buffer \<Rightarrow>
               Inr (buffer\<lparr>channelData :=
                      map (\<lambda>v. real_of_int (sint v) / 32768) dataInt16\<rparr>)))"

subsection \<open>The state of the live session\<close>

text \<open>
  An \<^verbatim>\<open>AudioBufferSourceNode\<close> after \<^verbatim>\<open>source.buffer = buffer\<close> and
  \<^verbatim>\<open>source.start(when)\<close>. Every \<^verbatim>\<open>createBufferSource()\<close> gives a new object, told
  apart by \<open>node_id\<close>.
\<close>

record source_node =
  node_id :: nat
  node_buffer :: AudioBuffer
  start_when :: real

text \<open>
  The parts of a server message that \<^verbatim>\<open>onmessage\<close> reads: the bytes of
  \<^verbatim>\<open>serverContent.modelTurn.parts[0].inlineData.data\<close> and the texts of the two
  transcriptions, each absent or present.
\<close>

record server_message =
  audioData :: "byte list option"
  outputTranscription :: "string option"
  inputTranscription :: "string option"

text \<open>
  The component's state and refs, \<^verbatim>\<open>window._scriptProcessor\<close> (absent, or present and
  connected or not), and what the handlers did to the platform: audio contexts created,
  microphone streams acquired, sessions opened by \<^verbatim>\<open>ai.live.connect\<close>, sessions on which
  \<^verbatim>\<open>close()\<close> was called, source nodes created, \<^verbatim>\<open>console.error\<close> and \<^verbatim>\<open>alert\<close>
  calls. \<^verbatim>\<open>sourcesRef\<close> is a JavaScript \<^verbatim>\<open>Set\<close>, kept in insertion order.
\<close>

record live_state =
  isLiveActive :: bool
  liveTranscription :: "(string \<times> string) list"
  liveSessionRef :: "nat option"
  nextStartTimeRef :: real
  sourcesRef :: "source_node list"
  inputAudioCtxRef :: "nat option"
  outputAudioCtxRef :: "nat option"
  scriptProcessor :: "bool option"
  contexts_created :: nat
  mic_streams :: nat
  sessions_opened :: nat
  sessions_closed :: "nat set"
  nodes_created :: nat
  console :: "string list"
  alerts :: "string list"

text \<open>The state when the component mounts: \<^verbatim>\<open>useState(false)\<close>, \<^verbatim>\<open>useRef(0)\<close>, ...\<close>

definition initial_state :: live_state where
  "initial_state =
     \<lparr>isLiveActive = False, liveTranscription = [], liveSessionRef = None,
      nextStartTimeRef = 0, sourcesRef = [], inputAudioCtxRef = None,
      outputAudioCtxRef = None, scriptProcessor = None, contexts_created = 0,
      mic_streams = 0, sessions_opened = 0, sessions_closed = {}, nodes_created = 0,
      console = [], alerts = []\<rparr>"

subsection \<open>Session handlers\<close>

text \<open>
  What the platform answers to \<^verbatim>\<open>startLive\<close>: \<^verbatim>\<open>getUserMedia\<close> rejects, or it resolves
  and \<^verbatim>\<open>ai.live.connect\<close> rejects, or both resolve.
\<close>

datatype start_outcome = MicDenied | ConnectFailed | Connected

text \<open>
  \<^verbatim>\<open>startLive\<close> creates both audio contexts first, whatever the state; any exception
  ends in the \<^verbatim>\<open>catch\<close> with the one alert. There is no test of \<^verbatim>\<open>isLiveActive\<close>.
\<close>

definition startLive :: "start_outcome \<Rightarrow> live_state \<Rightarrow> live_state" where
  "startLive outcome s =
     (let s1 = s\<lparr>inputAudioCtxRef := Some (contexts_created s),
                 outputAudioCtxRef := Some (contexts_created s + 1),
                 contexts_created := contexts_created s + 2\<rparr>
      in case outcome of
           MicDenied \<Rightarrow>
             s1\<lparr>alerts := alerts s1 @ [''Microphone access required for Live API.'']\<rparr>
         | ConnectFailed \<Rightarrow>
             s1\<lparr>mic_streams := mic_streams s1 + 1,
                alerts := alerts s1 @ [''Microphone access required for Live API.'']\<rparr>
         | Connected \<Rightarrow>
             s1\<lparr>mic_streams := mic_streams s1 + 1,
                sessions_opened := sessions_opened s1 + 1,
                liveSessionRef := Some (sessions_opened s1)\<rparr>)"

text \<open>
  \<^verbatim>\<open>onopen\<close>: \<^verbatim>\<open>setIsLiveActive(true)\<close>, then a new script processor is connected and
  stored in \<^verbatim>\<open>window._scriptProcessor\<close>.
\<close>

definition onopen :: "live_state \<Rightarrow> live_state" where
  "onopen s = s\<lparr>isLiveActive := True, scriptProcessor := Some True\<rparr>"

text \<open>\<^verbatim>\<open>onclose: () => setIsLiveActive(false)\<close>\<close>

definition onclose :: "live_state \<Rightarrow> live_state" where
  "onclose s = s\<lparr>isLiveActive := False\<rparr>"

text \<open>\<^verbatim>\<open>onerror: (e) => console.error(e)\<close>\<close>

definition onerror :: "string \<Rightarrow> live_state \<Rightarrow> live_state" where
  "onerror e s = s\<lparr>console := console s @ [e]\<rparr>"

text \<open>
  \<^verbatim>\<open>
  const stopLive = () => {
    liveSessionRef.current?.close();
    setIsLiveActive(false);
    if ((window as any)._scriptProcessor) (window as any)._scriptProcessor.disconnect();
  };
  \<close>
\<close>

definition stopLive :: "live_state \<Rightarrow> live_state" where
  "stopLive s =
     s\<lparr>sessions_closed :=
          (case liveSessionRef s of
             None \<Rightarrow> sessions_closed s
           | Some i \<Rightarrow> insert i (sessions_closed s)),
       isLiveActive := False,
       scriptProcessor :=
          (case scriptProcessor s of None \<Rightarrow> None | Some c \<Rightarrow> Some False)\<rparr>"

text \<open>The button: \<^verbatim>\<open>onClick={isLiveActive ? stopLive : startLive}\<close>\<close>

definition onClick :: "start_outcome \<Rightarrow> live_state \<Rightarrow> live_state" where
  "onClick outcome s = (if isLiveActive s then stopLive s else startLive outcome s)"

subsection \<open>Playback scheduling\<close>

text \<open>
  \<^verbatim>\<open>onmessage\<close> at device clock \<open>now\<close> (\<^verbatim>\<open>ctx.currentTime\<close>). An empty payload is falsy
  and skips the audio branch. \<^verbatim>\<open>nextStartTimeRef\<close> is raised to the clock before
  \<^verbatim>\<open>decodeAudioData\<close> is awaited; when that promise rejects the handler ends there, with
  the error as second component. The two transcriptions are appended after the audio
  branch.
\<close>

definition append_transcriptions :: "server_message \<Rightarrow> live_state \<Rightarrow> live_state" where
  "append_transcriptions m s =
     (let s1 = (case outputTranscription m of
                  None \<Rightarrow> s
                | Some t \<Rightarrow> s\<lparr>liveTranscription := liveTranscription s @ [(''gemini'', t)]\<rparr>)
      in case inputTranscription m of
           None \<Rightarrow> s1
         | Some t \<Rightarrow> s1\<lparr>liveTranscription := liveTranscription s1 @ [(''user'', t)]\<rparr>)"

definition onmessage ::
  "real \<Rightarrow> server_message \<Rightarrow> live_state \<Rightarrow> live_state \<times> js_error option" where
  "onmessage now m s =
     (case audioData m of
        None \<Rightarrow> (append_transcriptions m s, None)
      | Some data \<Rightarrow>
          if data = [] \<or> outputAudioCtxRef s = None
          then (append_transcriptions m s, None)
          else
            let s1 = s\<lparr>nextStartTimeRef := max (nextStartTimeRef s) now\<rparr>
            in case decodeAudioData data of
                 Inl e \<Rightarrow> (s1, Some e)
               | Inr buffer \<Rightarrow>
                   let source = \<lparr>node_id = nodes_created s1, node_buffer = buffer,
                                 start_when = nextStartTimeRef s1\<rparr>;
                       s2 = s1\<lparr>nextStartTimeRef := nextStartTimeRef s1 + duration buffer,
                               sourcesRef := sourcesRef s1 @ [source],
                               nodes_created := nodes_created s1 + 1\<rparr>
                   in (append_transcriptions m s2, None))"

text \<open>\<^verbatim>\<open>source.onended = () => sourcesRef.current.delete(source)\<close>\<close>

definition onended :: "nat \<Rightarrow> live_state \<Rightarrow> live_state" where
  "onended i s = s\<lparr>sourcesRef := filter (\<lambda>n. node_id n \<noteq> i) (sourcesRef s)\<rparr>"

text \<open>A run of messages, each with the clock at its arrival.\<close>

fun run_messages :: "(real \<times> server_message) list \<Rightarrow> live_state \<Rightarrow> live_state" where
  "run_messages [] s = s"
| "run_messages ((now, m) # ms) s = run_messages ms (fst (onmessage now m s))"

section \<open>Predicates and scenarios of the properties\<close>

text \<open>
  The buffer that \<^verbatim>\<open>onmessage\<close> schedules for a message, when its payload is present
  and decodes.
\<close>

definition message_buffer :: "server_message \<Rightarrow> AudioBuffer option" where
  "message_buffer m =
     (case audioData m of
        None \<Rightarrow> None
      | Some data \<Rightarrow> (case decodeAudioData data of Inl e \<Rightarrow> None | Inr b \<Rightarrow> Some b))"

text \<open>
  A run of messages has no intervening delay when, at the arrival of every message after
  the first, the device clock has not passed \<^verbatim>\<open>nextStartTimeRef\<close>.
\<close>

fun no_delay :: "(real \<times> server_message) list \<Rightarrow> live_state \<Rightarrow> bool" where
  "no_delay [] s = True"
| "no_delay ((now, m) # ms) s =
     ((case ms of [] \<Rightarrow> True | (now', m') # ms' \<Rightarrow>
         now' \<le> nextStartTimeRef (fst (onmessage now m s)))
      \<and> no_delay ms (fst (onmessage now m s)))"

text \<open>The first message of a run arrives before \<^verbatim>\<open>nextStartTimeRef\<close> as well.\<close>

definition on_time :: "(real \<times> server_message) list \<Rightarrow> live_state \<Rightarrow> bool" where
  "on_time ms s = (case ms of [] \<Rightarrow> True | (now, m) # ms' \<Rightarrow> now \<le> nextStartTimeRef s)"

text \<open>
  Two facts about the scheduled nodes that every handler keeps: each node ends, and each
  node starts, no later than \<^verbatim>\<open>nextStartTimeRef\<close>.
\<close>

definition ends_bounded :: "live_state \<Rightarrow> bool" where
  "ends_bounded s =
     list_all (\<lambda>n. start_when n + duration (node_buffer n) \<le> nextStartTimeRef s) (sourcesRef s)"

definition starts_bounded :: "live_state \<Rightarrow> bool" where
  "starts_bounded s = list_all (\<lambda>n. start_when n \<le> nextStartTimeRef s) (sourcesRef s)"

text \<open>Start times that abut: each one is the one before plus the duration before.\<close>

fun schedule :: "real \<Rightarrow> AudioBuffer list \<Rightarrow> real list" where
  "schedule t [] = []"
| "schedule t (b # bs) = t # schedule (t + duration b) bs"

text \<open>
  Concrete sessions. A message of \<open>n\<close> frames of silence and no transcription; the
  state after \<^verbatim>\<open>startLive\<close> connected and \<^verbatim>\<open>onopen\<close> ran; three buffers of 1 s, 0.5 s
  and 2 s (at 24000 Hz) arriving at clock 0; the session with one buffer of 1 s
  scheduled at clock 0; a message arriving late; a run whose second message arrives
  after the first buffer has ended.
\<close>

definition silence :: "nat \<Rightarrow> server_message" where
  "silence n = \<lparr>audioData = Some (replicate (2 * n) 0), outputTranscription = None,
                inputTranscription = None\<rparr>"

definition session_open :: live_state where
  "session_open = onopen (startLive Connected initial_state)"

definition scenario_A :: "(real \<times> server_message) list" where
  "scenario_A = [(0, silence 24000), (0, silence 12000), (0, silence 48000)]"

definition one_playing :: live_state where
  "one_playing = fst (onmessage 0 (silence 24000) session_open)"

definition late_message :: server_message where
  "late_message = silence 12000"

definition jittered :: "(real \<times> server_message) list" where
  "jittered = [(0, silence 24000), (5 / 2, silence 12000), (5 / 2, silence 48000)]"

section \<open>The sample codec\<close>

subsection \<open>Bytes and 16-bit elements\<close>

lemma uint_high_bound: "uint (w :: int16) div 256 mod 256 = uint w div 256"
proof -
  have "uint w < 65536"
    using uint_bounded [of w] by simp
  then have "uint w div 256 < 256"
    by simp
  moreover have "0 \<le> uint w div 256"
    by (simp add: pos_imp_zdiv_nonneg_iff)
  ultimately show ?thesis
    by simp
qed

lemma int16_reassemble: "int16_of_bytes (bytes_of_int16 w @ bs) = w # int16_of_bytes bs"
proof -
  have "uint w mod 256 + 256 * (uint w div 256) = uint w"
    by simp
  then show ?thesis
    by (simp add: bytes_of_int16_def uint_word_of_int uint_high_bound)
qed

lemma int16_of_bytes_roundtrip: "int16_of_bytes (Uint8Array_of_Int16Array ws) = ws"
  by (induction ws) (simp_all add: Uint8Array_of_Int16Array_def int16_reassemble)

lemma length_Uint8Array_of_Int16Array:
  "length (Uint8Array_of_Int16Array ws) = 2 * length ws"
  by (induction ws) (simp_all add: Uint8Array_of_Int16Array_def bytes_of_int16_def)

lemma length_int16_of_bytes: "length (int16_of_bytes bs) = length bs div 2"
  by (induction bs rule: int16_of_bytes.induct) simp_all

subsection \<open>Truncation and the signed range\<close>

lemma js_trunc_error: "\<bar>real_of_int (js_trunc y) - y\<bar> < 1"
  unfolding js_trunc_def by (auto; linarith)

lemma js_trunc_range:
  assumes "- 1 \<le> x" and "x < 1"
  shows "- 32768 \<le> js_trunc (x * 32768) \<and> js_trunc (x * 32768) \<le> 32767"
  using assms unfolding js_trunc_def by (auto; linarith)

lemma sint_ToInt16: "sint (ToInt16 y) = signed_take_bit 15 (js_trunc y)"
  unfolding ToInt16_def by (simp add: sint_sbintrunc')

lemma sint_ToInt16_in_range:
  assumes "- 32768 \<le> js_trunc y" and "js_trunc y \<le> 32767"
  shows "sint (ToInt16 y) = js_trunc y"
  using assms by (simp add: sint_ToInt16 signed_take_bit_int_eq_self)

subsection \<open>Decoding\<close>

lemma decodeAudioData_cases:
  "decodeAudioData data =
     (if odd (length data) then Inl RangeError
      else if data = [] then Inl NotSupportedError
      else Inr \<lparr>numberOfChannels = 1, sampleRate = 24000,
                channelData = map (\<lambda>v. real_of_int (sint v) / 32768) (int16_of_bytes data)\<rparr>)"
proof -
  have "length data div 2 = 0 \<longleftrightarrow> data = []" if "even (length data)"
    using that by (cases data) auto
  then show ?thesis
    by (auto simp: decodeAudioData_def new_Int16Array_def createBuffer_def
        length_int16_of_bytes odd_iff_mod_2_eq_one)
qed

lemma decode_encode:
  assumes "xs \<noteq> []"
  shows "decodeAudioData (onaudioprocess_pcm xs) =
     Inr \<lparr>numberOfChannels = 1, sampleRate = 24000,
          channelData = map (\<lambda>x. real_of_int (sint (ToInt16 (x * 32768))) / 32768) xs\<rparr>"
proof -
  have ne: "onaudioprocess_pcm xs \<noteq> []"
    using assms length_Uint8Array_of_Int16Array [of "map (\<lambda>x. ToInt16 (x * 32768)) xs"]
    by (auto simp: onaudioprocess_pcm_def)
  have ev: "even (length (onaudioprocess_pcm xs))"
    by (simp add: onaudioprocess_pcm_def length_Uint8Array_of_Int16Array)
  show ?thesis
    using ne ev
    by (simp add: decodeAudioData_cases)
      (simp add: onaudioprocess_pcm_def int16_of_bytes_roundtrip comp_def)
qed

text \<open>
  C6, as the code has it. The sample \<open>1\<close> lies in \<open>[-1,1]\<close>, is scaled to \<open>32768\<close>,
  wraps to \<open>-32768\<close> and decodes to \<open>-1\<close>: an error of \<open>2\<close>. An empty frame encodes to
  no bytes, for which \<^verbatim>\<open>createBuffer\<close> throws.
\<close>

theorem codec_roundtrip_fails_at_one:
  "decodeAudioData (onaudioprocess_pcm [1]) =
     Inr \<lparr>numberOfChannels = 1, sampleRate = 24000, channelData = [- 1]\<rparr>
   \<and> \<not> \<bar>(- 1 :: real) - 1\<bar> \<le> 1 / 32768
   \<and> decodeAudioData (onaudioprocess_pcm []) = Inl NotSupportedError"
  by (simp add: decodeAudioData_def onaudioprocess_pcm_def Uint8Array_of_Int16Array_def
      bytes_of_int16_def ToInt16_def js_trunc_def new_Int16Array_def createBuffer_def)

text \<open>
  C6, amended: for every non-empty sequence of samples with each value in \<open>[-1,1)\<close>,
  decoding the encoded samples succeeds and gives as many samples, each within
  \<open>1/32768\<close> of the original.
\<close>

theorem codec_roundtrip:
  assumes "xs \<noteq> []" and "\<forall>x\<in>set xs. - 1 \<le> x \<and> x < 1"
  shows "\<exists>b. decodeAudioData (onaudioprocess_pcm xs) = Inr b
             \<and> length (channelData b) = length xs
             \<and> (\<forall>i<length xs. \<bar>channelData b ! i - xs ! i\<bar> \<le> 1 / 32768)"
proof -
  let ?q = "\<lambda>x. real_of_int (sint (ToInt16 (x * 32768))) / 32768"
  have close: "\<bar>?q x - x\<bar> \<le> 1 / 32768" if "x \<in> set xs" for x
  proof -
    from that assms(2) have r: "- 1 \<le> x" "x < 1"
      by auto
    have "sint (ToInt16 (x * 32768)) = js_trunc (x * 32768)"
      using js_trunc_range [OF r] by (simp add: sint_ToInt16_in_range)
    moreover have "\<bar>real_of_int (js_trunc (x * 32768)) - x * 32768\<bar> < 1"
      by (rule js_trunc_error)
    ultimately show ?thesis
      by (simp add: field_simps abs_if split: if_splits)
  qed
  show ?thesis
    using close by (simp add: decode_encode [OF assms(1)])
qed

theorem codec_roundtrip_witness:
  "[1 / 2, - 1, 1 / 3 :: real] \<noteq> []
   \<and> - 1 \<le> (1 / 2 :: real) \<and> (1 / 2 :: real) < 1
   \<and> - 1 \<le> (- 1 :: real) \<and> (- 1 :: real) < 1
   \<and> - 1 \<le> (1 / 3 :: real) \<and> (1 / 3 :: real) < 1
   \<and> (\<exists>b. decodeAudioData (onaudioprocess_pcm [1 / 2, - 1, 1 / 3]) = Inr b
           \<and> length (channelData b) = length [1 / 2, - 1, 1 / 3 :: real]
           \<and> (\<forall>i<length [1 / 2, - 1, 1 / 3 :: real].
                 \<bar>channelData b ! i - [1 / 2, - 1, 1 / 3] ! i\<bar> \<le> 1 / 32768))"
  using codec_roundtrip [of "[1 / 2, - 1, 1 / 3]"] by simp

subsection \<open>What the encoder stores\<close>

lemma js_trunc_scaled:
  "js_trunc (x * 32768) = (if 0 \<le> x then \<lfloor>x * 32768\<rfloor> else \<lceil>x * 32768\<rceil>)"
  by (simp add: js_trunc_def zero_le_mult_iff)

lemma uint_ToInt16: "uint (ToInt16 y) = js_trunc y mod 65536"
  by (simp add: ToInt16_def uint_word_of_int)

lemma sint_ToInt16_mod: "sint (ToInt16 y) = (js_trunc y + 32768) mod 65536 - 32768"
  by (simp add: ToInt16_def int_word_sint)

lemma byte_split:
  "(k :: int) mod 65536 mod 256 = k mod 256"
  "(k :: int) mod 65536 div 256 = k div 256 mod 256"
proof -
  show "k mod 65536 mod 256 = k mod 256"
    by (rule mod_mod_cancel) simp
  have "k mod (256 * 256) = 256 * (k div 256 mod 256) + k mod 256"
    by (rule zmod_zmult2_eq) simp
  then have "k mod 65536 div 256 = (256 * (k div 256 mod 256) + k mod 256) div 256"
    by simp
  also have "\<dots> = k div 256 mod 256"
    by simp
  finally show "k mod 65536 div 256 = k div 256 mod 256" .
qed

lemma wrap_in_range:
  fixes k :: int
  shows "(k + 32768) mod 65536 - 32768 = k \<longleftrightarrow> - 32768 \<le> k \<and> k \<le> 32767"
proof -
  have "- 32768 \<le> (k + 32768) mod 65536 - 32768" "(k + 32768) mod 65536 - 32768 \<le> 32767"
    using pos_mod_bound [of 65536 "k + 32768"] pos_mod_sign [of 65536 "k + 32768"]
    by simp_all
  moreover have "(k + 32768) mod 65536 - 32768 = k" if "- 32768 \<le> k" "k \<le> 32767"
    using that by simp
  ultimately show ?thesis
    by auto
qed

lemma wrap_above:
  fixes k :: int
  assumes "32767 < k" and "k < 98303"
  shows "(k + 32768) mod 65536 - 32768 = k - 65536"
proof -
  have "k + 32768 = k - 32768 + 65536"
    by simp
  then have "(k + 32768) mod 65536 = (k - 32768 + 65536) mod 65536"
    by (rule arg_cong)
  also have "\<dots> = (k - 32768) mod 65536"
    by (rule mod_add_self2)
  also have "\<dots> = k - 32768"
    using assms by simp
  finally show ?thesis
    by simp
qed

lemma wrap_below:
  fixes k :: int
  assumes "- 98304 < k" and "k < - 32768"
  shows "(k + 32768) mod 65536 - 32768 = k + 65536"
proof -
  have "k + 32768 = k + 98304 - 65536"
    by simp
  then have "(k + 32768) mod 65536 = (k + 98304 - 65536) mod 65536"
    by (rule arg_cong)
  also have "\<dots> = (k + 98304) mod 65536"
    by (rule minus_mod_self2)
  also have "\<dots> = k + 98304"
    using assms by simp
  finally show ?thesis
    by simp
qed

lemma uint_bytes_of_int16: "map uint (bytes_of_int16 w) = [uint w mod 256, uint w div 256]"
  by (simp add: bytes_of_int16_def uint_word_of_int uint_high_bound)

lemma uint_onaudioprocess_pcm:
  "map uint (onaudioprocess_pcm xs) =
     concat (map (\<lambda>x. [js_trunc (x * 32768) mod 256, js_trunc (x * 32768) div 256 mod 256]) xs)"
  by (induction xs)
    (simp_all add: onaudioprocess_pcm_def Uint8Array_of_Int16Array_def uint_bytes_of_int16
      uint_ToInt16 byte_split)

text \<open>
  C7: encoding without clamping. Write \<open>k\<close> for the sample \<open>x\<close> scaled by 32768 and
  truncated towards zero (the floor of \<open>x * 32768\<close> for \<open>x \<ge> 0\<close>, its ceiling for
  \<open>x < 0\<close>). For every sample, in range or not, the stored 16-bit element is \<open>k\<close>
  reduced modulo \<open>2^16\<close>: unsigned \<open>k mod 65536\<close>, signed
  \<open>(k + 32768) mod 65536 - 32768\<close>, written low byte first. The stored value is \<open>k\<close>
  itself exactly when \<open>k\<close> lies in \<open>[-32768, 32767]\<close>. Above the range it is
  \<open>k - 65536\<close> and below the range \<open>k + 65536\<close> (for the first wrap on either side),
  which is not the saturated value \<open>32767\<close> or \<open>-32768\<close>. The bytes of a whole frame
  are the bytes of its samples in order.
\<close>

theorem encode_wraps_without_clamping:
  "(let k = (if 0 \<le> x then \<lfloor>x * 32768\<rfloor> else \<lceil>x * 32768\<rceil>) in
      uint (ToInt16 (x * 32768)) = k mod 65536
    \<and> sint (ToInt16 (x * 32768)) = (k + 32768) mod 65536 - 32768
    \<and> map uint (onaudioprocess_pcm [x]) = [k mod 256, k div 256 mod 256]
    \<and> (sint (ToInt16 (x * 32768)) = k \<longleftrightarrow> - 32768 \<le> k \<and> k \<le> 32767)
    \<and> (32767 < k \<and> k < 98303 \<longrightarrow>
          sint (ToInt16 (x * 32768)) = k - 65536 \<and> sint (ToInt16 (x * 32768)) < 32767)
    \<and> (- 98304 < k \<and> k < - 32768 \<longrightarrow>
          sint (ToInt16 (x * 32768)) = k + 65536 \<and> - 32768 < sint (ToInt16 (x * 32768))))
   \<and> map uint (onaudioprocess_pcm xs) =
        concat (map (\<lambda>x. let k = (if 0 \<le> x then \<lfloor>x * 32768\<rfloor> else \<lceil>x * 32768\<rceil>)
                          in [k mod 256, k div 256 mod 256]) xs)"
proof -
  define k where "k = (if 0 \<le> x then \<lfloor>x * 32768\<rfloor> else \<lceil>x * 32768\<rceil>)"
  have jk: "js_trunc (x * 32768) = k"
    by (simp add: k_def js_trunc_scaled)
  have s: "sint (ToInt16 (x * 32768)) = (k + 32768) mod 65536 - 32768"
    by (simp add: sint_ToInt16_mod jk)
  have a: "uint (ToInt16 (x * 32768)) = k mod 65536"
    by (simp add: uint_ToInt16 jk)
  have b: "map uint (onaudioprocess_pcm [x]) = [k mod 256, k div 256 mod 256]"
    by (simp add: uint_onaudioprocess_pcm jk)
  have c: "sint (ToInt16 (x * 32768)) = k \<longleftrightarrow> - 32768 \<le> k \<and> k \<le> 32767"
    unfolding s by (rule wrap_in_range)
  have d: "32767 < k \<and> k < 98303 \<longrightarrow>
          sint (ToInt16 (x * 32768)) = k - 65536 \<and> sint (ToInt16 (x * 32768)) < 32767"
    unfolding s using wrap_above [of k] by auto
  have e: "- 98304 < k \<and> k < - 32768 \<longrightarrow>
          sint (ToInt16 (x * 32768)) = k + 65536 \<and> - 32768 < sint (ToInt16 (x * 32768))"
    unfolding s using wrap_below [of k] by auto
  have f: "map uint (onaudioprocess_pcm xs) =
        concat (map (\<lambda>x. let k = (if 0 \<le> x then \<lfloor>x * 32768\<rfloor> else \<lceil>x * 32768\<rceil>)
                          in [k mod 256, k div 256 mod 256]) xs)"
    by (simp add: uint_onaudioprocess_pcm js_trunc_scaled Let_def)
  from s a b c d e f show ?thesis
    unfolding Let_def k_def by blast
qed

text \<open>
  The sample 1.5 scales to 49152 and is stored as \<open>-16384\<close> (bytes 0, 192); \<open>-1.5\<close> is
  stored as 16384 (bytes 0, 64); \<open>-3/65536\<close> scales to \<open>-1.5\<close>, truncates to \<open>-1\<close>
  (bytes 255, 255); 1.0 is stored as \<open>-32768\<close> (bytes 0, 128).
\<close>

theorem encode_wraps_without_clamping_witness:
  "(32767 :: int) < 49152 \<and> (49152 :: int) < 98303
   \<and> sint (ToInt16 (3 / 2 * 32768)) = - 16384
   \<and> (- 98304 :: int) < - 49152 \<and> (- 49152 :: int) < - 32768
   \<and> sint (ToInt16 (- (3 / 2) * 32768)) = 16384
   \<and> map uint (onaudioprocess_pcm [3 / 2, - (3 / 2), - (3 / 65536), 1]) =
        [0, 192, 0, 64, 255, 255, 0, 128]"
  using encode_wraps_without_clamping [of "3 / 2" "[3 / 2, - (3 / 2), - (3 / 65536), 1]"]
    encode_wraps_without_clamping [of "- (3 / 2)" "[]"]
  by (simp add: Let_def)

text \<open>
  C8, as the code has it: the empty byte sequence has even length, and decoding it fails
  (\<^verbatim>\<open>createBuffer(1, 0, 24000)\<close> throws).
\<close>

theorem decode_empty_fails:
  "even (length ([] :: byte list)) \<and> decodeAudioData [] = Inl NotSupportedError"
  by (simp add: decodeAudioData_def new_Int16Array_def createBuffer_def)

text \<open>
  C8, amended: \<^verbatim>\<open>decodeAudioData\<close> is a function of its bytes alone. It fails exactly
  when the length is odd (the \<^verbatim>\<open>RangeError\<close> of the \<^verbatim>\<open>Int16Array\<close> constructor) or zero
  (the \<^verbatim>\<open>NotSupportedError\<close> of \<^verbatim>\<open>createBuffer\<close>); for every non-empty input of even
  length it returns a one-channel buffer at 24000 Hz whose samples are the 16-bit signed
  little-endian integers of the input, each divided by 32768.
\<close>

theorem decodeAudioData_failure_modes:
  "decodeAudioData data =
     (if odd (length data) then Inl RangeError
      else if data = [] then Inl NotSupportedError
      else Inr \<lparr>numberOfChannels = 1, sampleRate = 24000,
                channelData = map (\<lambda>v. real_of_int (sint v) / 32768) (int16_of_bytes data)\<rparr>)"
  by (rule decodeAudioData_cases)

section \<open>Playback scheduling\<close>

text \<open>
  \<^verbatim>\<open>onmessage\<close> is taken as one step: the only suspension point is the \<^verbatim>\<open>await\<close> of
  \<^verbatim>\<open>decodeAudioData\<close>, which has no asynchronous work of its own, and between the read
  of the clock and \<^verbatim>\<open>source.start\<close> no other handler changes \<^verbatim>\<open>nextStartTimeRef\<close>.
\<close>

subsection \<open>One message\<close>

lemma duration_nonneg: "0 \<le> duration b"
  by (simp add: duration_def)

lemma append_transcriptions_sched [simp]:
  "nextStartTimeRef (append_transcriptions m s) = nextStartTimeRef s"
  "sourcesRef (append_transcriptions m s) = sourcesRef s"
  "outputAudioCtxRef (append_transcriptions m s) = outputAudioCtxRef s"
  "nodes_created (append_transcriptions m s) = nodes_created s"
  by (simp_all add: append_transcriptions_def Let_def split: option.splits)

lemma message_buffer_SomeD:
  assumes "message_buffer m = Some b"
  shows "\<exists>d. audioData m = Some d \<and> d \<noteq> [] \<and> decodeAudioData d = Inr b"
  using assms
  by (auto simp: message_buffer_def decodeAudioData_cases split: option.splits sum.splits if_splits)

lemma onmessage_enqueue:
  assumes "message_buffer m = Some b" and "outputAudioCtxRef s \<noteq> None"
  shows "nextStartTimeRef (fst (onmessage now m s)) = max (nextStartTimeRef s) now + duration b"
    and "sourcesRef (fst (onmessage now m s)) =
           sourcesRef s @ [\<lparr>node_id = nodes_created s, node_buffer = b,
                            start_when = max (nextStartTimeRef s) now\<rparr>]"
    and "snd (onmessage now m s) = None"
proof -
  from message_buffer_SomeD [OF assms(1)] obtain d
    where d: "audioData m = Some d" "d \<noteq> []" "decodeAudioData d = Inr b" by blast
  show "nextStartTimeRef (fst (onmessage now m s)) = max (nextStartTimeRef s) now + duration b"
    using d assms(2) by (auto simp: onmessage_def Let_def)
  show "sourcesRef (fst (onmessage now m s)) =
           sourcesRef s @ [\<lparr>node_id = nodes_created s, node_buffer = b,
                            start_when = max (nextStartTimeRef s) now\<rparr>]"
    using d assms(2) by (auto simp: onmessage_def Let_def)
  show "snd (onmessage now m s) = None"
    using d assms(2) by (auto simp: onmessage_def Let_def)
qed

lemma onmessage_ctx [simp]:
  "outputAudioCtxRef (fst (onmessage now m s)) = outputAudioCtxRef s"
  by (simp add: onmessage_def Let_def split: option.splits sum.splits)

lemma onmessage_nextStartTime_mono:
  "nextStartTimeRef s \<le> nextStartTimeRef (fst (onmessage now m s))"
  using duration_nonneg
  by (auto simp: onmessage_def Let_def max_def add_increasing2 split: option.splits sum.splits)

lemma onmessage_sources_cases:
  "sourcesRef (fst (onmessage now m s)) = sourcesRef s \<or>
   (\<exists>b. message_buffer m = Some b \<and> 
     sourcesRef (fst (onmessage now m s)) =
        sourcesRef s @ [\<lparr>node_id = nodes_created s, node_buffer = b,
                            start_when = max (nextStartTimeRef s) now\<rparr>] \<and>
     nextStartTimeRef (fst (onmessage now m s)) = max (nextStartTimeRef s) now + duration b)"
  by (auto simp: onmessage_def Let_def message_buffer_def split: option.splits sum.splits)

subsection \<open>Facts kept by every handler\<close>

lemma onmessage_starts_sorted:
  assumes "sorted (map start_when (sourcesRef s))" and "starts_bounded s"
  shows "sorted (map start_when (sourcesRef (fst (onmessage now m s))))
       \<and> starts_bounded (fst (onmessage now m s))"
proof -
  have le: "nextStartTimeRef s \<le> nextStartTimeRef (fst (onmessage now m s))"
    by (rule onmessage_nextStartTime_mono)
  from onmessage_sources_cases [of now m s] show ?thesis
  proof
    assume "sourcesRef (fst (onmessage now m s)) = sourcesRef s"
    with assms le show ?thesis
      by (fastforce simp: starts_bounded_def list_all_iff)
  next
    assume "\<exists>b. message_buffer m = Some b \<and> 
     sourcesRef (fst (onmessage now m s)) =
        sourcesRef s @ [\<lparr>node_id = nodes_created s, node_buffer = b,
                            start_when = max (nextStartTimeRef s) now\<rparr>] \<and>
     nextStartTimeRef (fst (onmessage now m s)) = max (nextStartTimeRef s) now + duration b"
    then obtain b where b: "sourcesRef (fst (onmessage now m s)) =
        sourcesRef s @ [\<lparr>node_id = nodes_created s, node_buffer = b,
                            start_when = max (nextStartTimeRef s) now\<rparr>]"
      "nextStartTimeRef (fst (onmessage now m s)) = max (nextStartTimeRef s) now + duration b"
      by blast
    have "0 \<le> duration b" by (rule duration_nonneg)
    with assms b show ?thesis
      by (fastforce simp: starts_bounded_def list_all_iff sorted_append)
  qed
qed

lemma onmessage_ends_bounded:
  assumes "ends_bounded s"
  shows "ends_bounded (fst (onmessage now m s))"
proof -
  have le: "nextStartTimeRef s \<le> nextStartTimeRef (fst (onmessage now m s))"
    by (rule onmessage_nextStartTime_mono)
  from onmessage_sources_cases [of now m s] show ?thesis
  proof
    assume "sourcesRef (fst (onmessage now m s)) = sourcesRef s"
    with assms le show ?thesis
      by (fastforce simp: ends_bounded_def list_all_iff)
  next
    assume "\<exists>b. message_buffer m = Some b \<and> 
     sourcesRef (fst (onmessage now m s)) =
        sourcesRef s @ [\<lparr>node_id = nodes_created s, node_buffer = b,
                            start_when = max (nextStartTimeRef s) now\<rparr>] \<and>
     nextStartTimeRef (fst (onmessage now m s)) = max (nextStartTimeRef s) now + duration b"
    then obtain b where b: "sourcesRef (fst (onmessage now m s)) =
        sourcesRef s @ [\<lparr>node_id = nodes_created s, node_buffer = b,
                            start_when = max (nextStartTimeRef s) now\<rparr>]"
      "nextStartTimeRef (fst (onmessage now m s)) = max (nextStartTimeRef s) now + duration b"
      by blast
    have "0 \<le> duration b" by (rule duration_nonneg)
    with assms b show ?thesis
      by (fastforce simp: ends_bounded_def list_all_iff)
  qed
qed

lemma ends_bounded_initial: "ends_bounded initial_state"
  by (simp add: ends_bounded_def initial_state_def)

lemma ends_bounded_handlers:
  "ends_bounded s \<Longrightarrow> ends_bounded (startLive outcome s)"
  "ends_bounded s \<Longrightarrow> ends_bounded (onopen s)"
  "ends_bounded s \<Longrightarrow> ends_bounded (onclose s)"
  "ends_bounded s \<Longrightarrow> ends_bounded (onerror e s)"
  "ends_bounded s \<Longrightarrow> ends_bounded (stopLive s)"
  "ends_bounded s \<Longrightarrow> ends_bounded (onended i s)"
  by (auto simp: ends_bounded_def startLive_def onopen_def onclose_def onerror_def
      stopLive_def onended_def list_all_iff Let_def split: start_outcome.splits)

subsection \<open>Runs of messages\<close>

lemma run_messages_nextStartTime_mono:
  "nextStartTimeRef s \<le> nextStartTimeRef (run_messages ms s)"
proof (induction ms arbitrary: s)
  case Nil
  show ?case by simp
next
  case (Cons a ms)
  obtain now m where a: "a = (now, m)" by (cases a)
  have "nextStartTimeRef s \<le> nextStartTimeRef (fst (onmessage now m s))"
    by (rule onmessage_nextStartTime_mono)
  also have "\<dots> \<le> nextStartTimeRef (run_messages ms (fst (onmessage now m s)))"
    by (rule Cons.IH)
  finally show ?case by (simp add: a)
qed

lemma run_messages_starts_sorted:
  assumes "sorted (map start_when (sourcesRef s))" and "starts_bounded s"
  shows "sorted (map start_when (sourcesRef (run_messages ms s)))"
  using assms
proof (induction ms arbitrary: s)
  case Nil
  then show ?case by simp
next
  case (Cons a ms)
  obtain now m where a: "a = (now, m)" by (cases a)
  from onmessage_starts_sorted [OF Cons.prems, of now m] Cons.IH show ?case
    by (simp add: a)
qed

lemma schedule_length [simp]: "length (schedule t bs) = length bs"
  by (induction bs arbitrary: t) simp_all

lemma schedule_step:
  "Suc i < length bs \<Longrightarrow> schedule t bs ! Suc i = schedule t bs ! i + duration (bs ! i)"
proof (induction bs arbitrary: t i)
  case Nil
  then show ?case by simp
next
  case (Cons b bs)
  show ?case
  proof (cases i)
    case 0
    with Cons.prems show ?thesis by (cases bs) simp_all
  next
    case (Suc j)
    with Cons.prems have "Suc j < length bs" by simp
    from Cons.IH [OF this, of "t + duration b"] Suc show ?thesis by simp
  qed
qed

lemma schedule_end:
  "bs \<noteq> [] \<Longrightarrow> last (schedule t bs) + duration (last bs) = t + sum_list (map duration bs)"
proof (induction bs arbitrary: t)
  case Nil
  then show ?case by simp
next
  case (Cons b bs)
  show ?case
  proof (cases bs)
    case Nil
    then show ?thesis by simp
  next
    case (Cons c cs)
    then have "bs \<noteq> []" by simp
    from Cons.IH [OF this, of "t + duration b"] \<open>bs \<noteq> []\<close> show ?thesis
      by (cases bs) (simp_all add: add.assoc)
  qed
qed

lemma run_on_time:
  assumes "outputAudioCtxRef s \<noteq> None"
      and "map (\<lambda>p. message_buffer (snd p)) ms = map Some bs"
      and "no_delay ms s" and "on_time ms s"
  shows "\<exists>new. sourcesRef (run_messages ms s) = sourcesRef s @ new
           \<and> map node_buffer new = bs
           \<and> map start_when new = schedule (nextStartTimeRef s) bs
           \<and> nextStartTimeRef (run_messages ms s) =
               nextStartTimeRef s + sum_list (map duration bs)"
  using assms
proof (induction ms arbitrary: s bs)
  case Nil
  then show ?case by simp
next
  case (Cons a ms)
  obtain now m where a: "a = (now, m)" by (cases a)
  from Cons.prems(2) a obtain b bs' where bs: "bs = b # bs'"
    and b: "message_buffer m = Some b"
    and rest: "map (\<lambda>p. message_buffer (snd p)) ms = map Some bs'"
    by (cases bs) auto
  let ?s1 = "fst (onmessage now m s)"
  from Cons.prems(4) a have now: "now \<le> nextStartTimeRef s"
    by (simp add: on_time_def)
  have nst1: "nextStartTimeRef ?s1 = nextStartTimeRef s + duration b"
    using onmessage_enqueue(1) [OF b Cons.prems(1), of now] now by (simp add: max_def)
  have src1: "sourcesRef ?s1 = sourcesRef s @
      [\<lparr>node_id = nodes_created s, node_buffer = b, start_when = nextStartTimeRef s\<rparr>]"
    using onmessage_enqueue(2) [OF b Cons.prems(1), of now] now by (simp add: max_def)
  have ctx1: "outputAudioCtxRef ?s1 \<noteq> None"
    using Cons.prems(1) by simp
  have nd1: "no_delay ms ?s1" and ot1: "on_time ms ?s1"
    using Cons.prems(3) a by (auto simp: on_time_def split: list.splits)
  from Cons.IH [OF ctx1 rest nd1 ot1] obtain new
    where new: "sourcesRef (run_messages ms ?s1) = sourcesRef ?s1 @ new"
      "map node_buffer new = bs'"
      "map start_when new = schedule (nextStartTimeRef ?s1) bs'"
      "nextStartTimeRef (run_messages ms ?s1) =
         nextStartTimeRef ?s1 + sum_list (map duration bs')"
    by blast
  let ?n = "\<lparr>node_id = nodes_created s, node_buffer = b, start_when = nextStartTimeRef s\<rparr>"
  have "sourcesRef (run_messages (a # ms) s) = sourcesRef s @ (?n # new)"
    using new(1) src1 by (simp add: a)
  moreover have "map node_buffer (?n # new) = bs"
    using new(2) bs by simp
  moreover have "map start_when (?n # new) = schedule (nextStartTimeRef s) bs"
    using new(3) nst1 bs by simp
  moreover have "nextStartTimeRef (run_messages (a # ms) s) =
      nextStartTimeRef s + sum_list (map duration bs)"
    using new(4) nst1 bs by (simp add: a)
  ultimately show ?case by blast
qed

lemma run_no_delay:
  assumes "outputAudioCtxRef s \<noteq> None"
      and "map (\<lambda>p. message_buffer (snd p)) ((now, m) # ms) = map Some bs"
      and "no_delay ((now, m) # ms) s"
  shows "\<exists>new. sourcesRef (run_messages ((now, m) # ms) s) = sourcesRef s @ new
           \<and> map node_buffer new = bs
           \<and> map start_when new = schedule (max (nextStartTimeRef s) now) bs
           \<and> nextStartTimeRef (run_messages ((now, m) # ms) s) =
               max (nextStartTimeRef s) now + sum_list (map duration bs)"
proof -
  from assms(2) obtain b bs' where bs: "bs = b # bs'"
    and b: "message_buffer m = Some b"
    and rest: "map (\<lambda>p. message_buffer (snd p)) ms = map Some bs'"
    by (cases bs) auto
  let ?s1 = "fst (onmessage now m s)"
  let ?t = "max (nextStartTimeRef s) now"
  have nst1: "nextStartTimeRef ?s1 = ?t + duration b"
    by (rule onmessage_enqueue(1) [OF b assms(1)])
  have src1: "sourcesRef ?s1 = sourcesRef s @
      [\<lparr>node_id = nodes_created s, node_buffer = b, start_when = ?t\<rparr>]"
    by (rule onmessage_enqueue(2) [OF b assms(1)])
  have ctx1: "outputAudioCtxRef ?s1 \<noteq> None"
    using assms(1) by simp
  have nd1: "no_delay ms ?s1" and ot1: "on_time ms ?s1"
    using assms(3) by (auto simp: on_time_def split: list.splits)
  from run_on_time [OF ctx1 rest nd1 ot1] obtain new
    where new: "sourcesRef (run_messages ms ?s1) = sourcesRef ?s1 @ new"
      "map node_buffer new = bs'"
      "map start_when new = schedule (nextStartTimeRef ?s1) bs'"
      "nextStartTimeRef (run_messages ms ?s1) =
         nextStartTimeRef ?s1 + sum_list (map duration bs')"
    by blast
  let ?n = "\<lparr>node_id = nodes_created s, node_buffer = b, start_when = ?t\<rparr>"
  have "sourcesRef (run_messages ((now, m) # ms) s) = sourcesRef s @ (?n # new)"
    using new(1) src1 by simp
  moreover have "map node_buffer (?n # new) = bs"
    using new(2) bs by simp
  moreover have "map start_when (?n # new) = schedule ?t bs"
    using new(3) nst1 bs by simp
  moreover have "nextStartTimeRef (run_messages ((now, m) # ms) s) =
      ?t + sum_list (map duration bs)"
    using new(4) nst1 bs by simp
  ultimately show ?thesis by blast
qed

lemma all_buffers:
  assumes "list_all (\<lambda>(now, m). message_buffer m \<noteq> None) ms"
  shows "\<exists>bs. map (\<lambda>p. message_buffer (snd p)) ms = map Some bs"
  using assms
proof (induction ms)
  case Nil
  then show ?case by simp
next
  case (Cons a ms)
  then obtain bs where "map (\<lambda>p. message_buffer (snd p)) ms = map Some bs" by auto
  moreover from Cons.prems obtain b where "message_buffer (snd a) = Some b"
    by (cases a) auto
  ultimately have "map (\<lambda>p. message_buffer (snd p)) (a # ms) = map Some (b # bs)" by simp
  then show ?case by blast
qed

subsection \<open>The concrete sessions, evaluated\<close>

lemma int16_of_bytes_zeros: "int16_of_bytes (replicate (2 * n) 0) = replicate n 0"
  by (induction n) simp_all

lemma message_buffer_silence:
  assumes "0 < n"
  shows "message_buffer (silence n) =
     Some \<lparr>numberOfChannels = 1, sampleRate = 24000, channelData = replicate n 0\<rparr>"
  using assms
  by (simp add: message_buffer_def silence_def decodeAudioData_cases int16_of_bytes_zeros)

lemma onmessage_silence:
  assumes "0 < n" and "outputAudioCtxRef s \<noteq> None"
  shows "fst (onmessage now (silence n) s) =
     s\<lparr>nextStartTimeRef := max (nextStartTimeRef s) now + real n / 24000,
       sourcesRef := sourcesRef s @
         [\<lparr>node_id = nodes_created s,
           node_buffer = \<lparr>numberOfChannels = 1, sampleRate = 24000,
                           channelData = replicate n 0\<rparr>,
           start_when = max (nextStartTimeRef s) now\<rparr>],
       nodes_created := nodes_created s + 1\<rparr>"
proof -
  have "decodeAudioData (replicate (2 * n) 0) =
      Inr \<lparr>numberOfChannels = 1, sampleRate = 24000, channelData = replicate n 0\<rparr>"
    using assms(1) by (simp add: decodeAudioData_cases int16_of_bytes_zeros)
  then show ?thesis
    using assms
    by (auto simp: onmessage_def silence_def Let_def append_transcriptions_def duration_def)
qed

lemma session_open_eq:
  "session_open =
     \<lparr>isLiveActive = True, liveTranscription = [], liveSessionRef = Some 0,
      nextStartTimeRef = 0, sourcesRef = [], inputAudioCtxRef = Some 0,
      outputAudioCtxRef = Some 1, scriptProcessor = Some True, contexts_created = 2,
      mic_streams = 1, sessions_opened = 1, sessions_closed = {}, nodes_created = 0,
      console = [], alerts = []\<rparr>"
  by (simp add: session_open_def onopen_def startLive_def initial_state_def)

lemma one_playing_eq:
  "one_playing =
     \<lparr>isLiveActive = True, liveTranscription = [], liveSessionRef = Some 0,
      nextStartTimeRef = 1,
      sourcesRef = [\<lparr>node_id = 0,
           node_buffer = \<lparr>numberOfChannels = 1, sampleRate = 24000,
                           channelData = replicate 24000 0\<rparr>,
           start_when = 0\<rparr>],
      inputAudioCtxRef = Some 0,
      outputAudioCtxRef = Some 1, scriptProcessor = Some True, contexts_created = 2,
      mic_streams = 1, sessions_opened = 1, sessions_closed = {}, nodes_created = 1,
      console = [], alerts = []\<rparr>"
  by (simp add: one_playing_def onmessage_silence session_open_eq)

lemma scenario_A_run:
  "map start_when (sourcesRef (run_messages scenario_A session_open)) = [0, 1, 3 / 2]
   \<and> map (\<lambda>n. duration (node_buffer n)) (sourcesRef (run_messages scenario_A session_open))
       = [1, 1 / 2, 2]
   \<and> nextStartTimeRef (run_messages scenario_A session_open) = 7 / 2"
  by (simp add: scenario_A_def onmessage_silence session_open_eq duration_def)

subsection \<open>The scheduling properties\<close>

text \<open>
  C1: gapless in-order scheduling. For any run of messages that each carry a decodable
  buffer, with the output context present and the clock never past \<^verbatim>\<open>nextStartTimeRef\<close>
  at an arrival after the first, the run appends one source node per message, in
  order, holding that message's buffer; each node starts where the one before it
  starts plus that one's duration; the first starts at the larger of the old
  \<^verbatim>\<open>nextStartTimeRef\<close> and the clock, and \<^verbatim>\<open>nextStartTimeRef\<close> ends at the last node's
  end.
\<close>

theorem gapless_in_order:
  assumes "outputAudioCtxRef s \<noteq> None"
      and "list_all (\<lambda>(now, m). message_buffer m \<noteq> None) ms"
      and "no_delay ms s"
  shows "\<exists>new. sourcesRef (run_messages ms s) = sourcesRef s @ new
           \<and> map (\<lambda>n. Some (node_buffer n)) new = map (\<lambda>p. message_buffer (snd p)) ms
           \<and> (\<forall>i. Suc i < length new \<longrightarrow>
                 start_when (new ! Suc i) =
                   start_when (new ! i) + duration (node_buffer (new ! i)))
           \<and> (new \<noteq> [] \<longrightarrow>
                 start_when (hd new) = max (nextStartTimeRef s) (fst (hd ms))
                 \<and> nextStartTimeRef (run_messages ms s) =
                     start_when (last new) + duration (node_buffer (last new)))"
proof (cases ms)
  case Nil
  then show ?thesis by simp
next
  case (Cons a ms')
  obtain now m where a: "a = (now, m)" by (cases a)
  from all_buffers [OF assms(2)] obtain bs
    where bs: "map (\<lambda>p. message_buffer (snd p)) ms = map Some bs" by blast
  let ?t = "max (nextStartTimeRef s) now"
  from run_no_delay [OF assms(1), of now m ms' bs] bs assms(3) Cons a obtain new
    where new: "sourcesRef (run_messages ms s) = sourcesRef s @ new"
      "map node_buffer new = bs"
      "map start_when new = schedule ?t bs"
      "nextStartTimeRef (run_messages ms s) = ?t + sum_list (map duration bs)"
    by auto
  have len: "length new = length bs"
    using new(2) by auto
  have ne: "bs \<noteq> []" using bs Cons by auto
  have 1: "map (\<lambda>n. Some (node_buffer n)) new = map (\<lambda>p. message_buffer (snd p)) ms"
  proof -
    have "map (\<lambda>n. Some (node_buffer n)) new = map Some (map node_buffer new)"
      by (simp add: comp_def)
    with new(2) bs show ?thesis by simp
  qed
  have 2: "start_when (new ! Suc i) = start_when (new ! i) + duration (node_buffer (new ! i))"
    if "Suc i < length new" for i
  proof -
    from that len have i: "Suc i < length bs" by simp
    have "start_when (new ! Suc i) = schedule ?t bs ! Suc i"
      using that new(3) by (metis nth_map)
    moreover have "start_when (new ! i) = schedule ?t bs ! i"
      using that new(3) by (metis Suc_lessD nth_map)
    moreover have "node_buffer (new ! i) = bs ! i"
      using that new(2) by (metis Suc_lessD nth_map)
    ultimately show ?thesis
      using schedule_step [OF i, of ?t] by simp
  qed
  have 3: "start_when (hd new) = max (nextStartTimeRef s) (fst (hd ms))"
    using new(3) ne len Cons a by (cases new; cases bs) auto
  have 4: "nextStartTimeRef (run_messages ms s) =
             start_when (last new) + duration (node_buffer (last new))"
  proof -
    have nn: "new \<noteq> []" using ne len by auto
    have "start_when (last new) = last (schedule ?t bs)"
      using new(3) nn by (metis last_map)
    moreover have "node_buffer (last new) = last bs"
      using new(2) nn by (metis last_map)
    ultimately show ?thesis
      using schedule_end [OF ne, of ?t] new(4) by simp
  qed
  from new(1) 1 2 3 4 show ?thesis by blast
qed

text \<open>
  Scenario A: buffers of 1.0 s, 0.5 s and 2.0 s enqueued at clock 0 start at 0.0, 1.0
  and 1.5, and \<^verbatim>\<open>nextStartTimeRef\<close> is left at 3.5.
\<close>

theorem gapless_in_order_witness:
  "outputAudioCtxRef session_open \<noteq> None
   \<and> list_all (\<lambda>(now, m). message_buffer m \<noteq> None) scenario_A
   \<and> no_delay scenario_A session_open
   \<and> (\<exists>new. sourcesRef (run_messages scenario_A session_open) = sourcesRef session_open @ new
           \<and> map (\<lambda>n. Some (node_buffer n)) new = map (\<lambda>p. message_buffer (snd p)) scenario_A
           \<and> (\<forall>i. Suc i < length new \<longrightarrow>
                 start_when (new ! Suc i) =
                   start_when (new ! i) + duration (node_buffer (new ! i)))
           \<and> (new \<noteq> [] \<longrightarrow>
                 start_when (hd new) = max (nextStartTimeRef session_open) (fst (hd scenario_A))
                 \<and> nextStartTimeRef (run_messages scenario_A session_open) =
                     start_when (last new) + duration (node_buffer (last new))))
   \<and> map start_when (sourcesRef (run_messages scenario_A session_open)) = [0, 1, 3 / 2]
   \<and> map (\<lambda>n. duration (node_buffer n)) (sourcesRef (run_messages scenario_A session_open))
       = [1, 1 / 2, 2]
   \<and> nextStartTimeRef (run_messages scenario_A session_open) = 7 / 2"
proof -
  have h1: "outputAudioCtxRef session_open \<noteq> None"
    by (simp add: session_open_eq)
  have h2: "list_all (\<lambda>(now, m). message_buffer m \<noteq> None) scenario_A"
    by (simp add: scenario_A_def message_buffer_silence)
  have h3: "no_delay scenario_A session_open"
    by (simp add: scenario_A_def onmessage_silence session_open_eq)
  from h1 h2 h3 gapless_in_order [OF h1 h2 h3] scenario_A_run show ?thesis
    by blast
qed

text \<open>
  C2: no overlap with real time. A message with a decodable buffer, arriving at clock
  \<open>now\<close>, is scheduled at the larger of \<^verbatim>\<open>nextStartTimeRef\<close> and \<open>now\<close>: at \<open>now\<close>
  itself when the clock has passed \<^verbatim>\<open>nextStartTimeRef\<close>, never before \<open>now\<close>, and never
  before the scheduled end of a buffer enqueued earlier.
\<close>

theorem no_overlap_with_realtime:
  assumes "message_buffer m = Some b" and "outputAudioCtxRef s \<noteq> None"
      and "ends_bounded s"
  shows "sourcesRef (fst (onmessage now m s)) =
           sourcesRef s @ [\<lparr>node_id = nodes_created s, node_buffer = b,
                            start_when = max (nextStartTimeRef s) now\<rparr>]
       \<and> (nextStartTimeRef s < now \<longrightarrow>
            start_when (last (sourcesRef (fst (onmessage now m s)))) = now)
       \<and> now \<le> start_when (last (sourcesRef (fst (onmessage now m s))))
       \<and> nextStartTimeRef s \<le> start_when (last (sourcesRef (fst (onmessage now m s))))
       \<and> list_all (\<lambda>p. start_when p + duration (node_buffer p)
                          \<le> start_when (last (sourcesRef (fst (onmessage now m s)))))
            (sourcesRef s)
       \<and> ends_bounded (fst (onmessage now m s))"
proof -
  note src = onmessage_enqueue(2) [OF assms(1,2), of now]
  have "list_all (\<lambda>p. start_when p + duration (node_buffer p) \<le> max (nextStartTimeRef s) now)
          (sourcesRef s)"
    using assms(3) by (fastforce simp: ends_bounded_def list_all_iff)
  moreover have "ends_bounded (fst (onmessage now m s))"
    by (rule onmessage_ends_bounded [OF assms(3)])
  ultimately show ?thesis
    using src by simp
qed

text \<open>
  A buffer of 1 s was scheduled at 0; the next message arrives at clock 2.5 and starts
  at 2.5, leaving a gap of 1.5 s.
\<close>

theorem no_overlap_with_realtime_witness:
  "message_buffer late_message =
      Some \<lparr>numberOfChannels = 1, sampleRate = 24000, channelData = replicate 12000 0\<rparr>
   \<and> outputAudioCtxRef one_playing \<noteq> None
   \<and> ends_bounded one_playing
   \<and> nextStartTimeRef one_playing = 1
   \<and> map start_when (sourcesRef (fst (onmessage (5 / 2) late_message one_playing))) = [0, 5 / 2]
   \<and> start_when (last (sourcesRef (fst (onmessage (5 / 2) late_message one_playing)))) = 5 / 2
   \<and> ends_bounded (fst (onmessage (5 / 2) late_message one_playing))"
proof -
  have h1: "message_buffer late_message =
      Some \<lparr>numberOfChannels = 1, sampleRate = 24000, channelData = replicate 12000 0\<rparr>"
    by (simp add: late_message_def message_buffer_silence)
  have h2: "outputAudioCtxRef one_playing \<noteq> None"
    by (simp add: one_playing_eq)
  have h3: "ends_bounded one_playing"
    by (simp add: one_playing_eq ends_bounded_def duration_def)
  have v: "nextStartTimeRef one_playing = 1"
    "map start_when (sourcesRef (fst (onmessage (5 / 2) late_message one_playing))) = [0, 5 / 2]"
    by (simp_all add: late_message_def onmessage_silence one_playing_eq)
  from no_overlap_with_realtime [OF h1 h2 h3, of "5 / 2"] v h1 h2 h3 show ?thesis
    by simp
qed

text \<open>
  C10: \<^verbatim>\<open>nextStartTimeRef\<close> never decreases. A message leaves it unchanged, raises it to
  the clock, or sets it to the larger of the two plus a duration, which is never
  negative; so over any run of messages it does not decrease, and the start times of
  the scheduled nodes, in enqueue order, are non-decreasing.
\<close>

theorem nextStartTime_never_decreases:
  assumes "sorted (map start_when (sourcesRef s))" and "starts_bounded s"
  shows "nextStartTimeRef s \<le> nextStartTimeRef (fst (onmessage now m s))
       \<and> (\<forall>b. message_buffer m = Some b \<and> outputAudioCtxRef s \<noteq> None \<longrightarrow>
             nextStartTimeRef (fst (onmessage now m s)) = max (nextStartTimeRef s) now + duration b
             \<and> 0 \<le> duration b)
       \<and> nextStartTimeRef s \<le> nextStartTimeRef (run_messages ms s)
       \<and> sorted (map start_when (sourcesRef (run_messages ms s)))"
  using onmessage_nextStartTime_mono [of s now m] onmessage_enqueue(1) [of m _ s now]
    duration_nonneg run_messages_nextStartTime_mono [of s ms]
    run_messages_starts_sorted [OF assms, of ms]
  by blast

text \<open>
  Three messages, the second and third arriving at clock 2.5 after the first buffer
  ended at 1: the starts are 0, 2.5 and 3.
\<close>

theorem nextStartTime_never_decreases_witness:
  "sorted (map start_when (sourcesRef session_open))
   \<and> starts_bounded session_open
   \<and> nextStartTimeRef session_open = 0
   \<and> nextStartTimeRef (fst (onmessage 0 (silence 24000) session_open)) = 1
   \<and> nextStartTimeRef (run_messages jittered session_open) = 5
   \<and> map start_when (sourcesRef (run_messages jittered session_open)) = [0, 5 / 2, 3]
   \<and> sorted (map start_when (sourcesRef (run_messages jittered session_open)))"
proof -
  have h1: "sorted (map start_when (sourcesRef session_open))"
    by (simp add: session_open_eq)
  have h2: "starts_bounded session_open"
    by (simp add: session_open_eq starts_bounded_def)
  have v: "nextStartTimeRef session_open = 0"
    "nextStartTimeRef (fst (onmessage 0 (silence 24000) session_open)) = 1"
    "nextStartTimeRef (run_messages jittered session_open) = 5"
    "map start_when (sourcesRef (run_messages jittered session_open)) = [0, 5 / 2, 3]"
    by (simp_all add: jittered_def onmessage_silence session_open_eq)
  from nextStartTime_never_decreases [OF h1 h2, of 0 "silence 24000" jittered] v h1 h2
  show ?thesis
    by blast
qed

section \<open>Session handlers\<close>



text \<open>
  C4, as the code has it: after \<^verbatim>\<open>onerror\<close> in an active session the session is still
  active, the scheduled node is still in \<^verbatim>\<open>sourcesRef\<close>, the script processor is still
  connected and no session was closed.
\<close>

theorem onerror_leaves_session_active:
  "isLiveActive one_playing
   \<and> isLiveActive (onerror ''socket error'' one_playing)
   \<and> length (sourcesRef (onerror ''socket error'' one_playing)) = 1
   \<and> scriptProcessor (onerror ''socket error'' one_playing) = Some True
   \<and> sessions_closed (onerror ''socket error'' one_playing) = {}"
  by (simp add: one_playing_eq onerror_def)

text \<open>
  C4, amended: \<^verbatim>\<open>onerror\<close> reports the error with \<^verbatim>\<open>console.error\<close> and changes nothing
  else: \<^verbatim>\<open>isLiveActive\<close>, the playback set, \<^verbatim>\<open>nextStartTimeRef\<close>, the transport and the
  capture wiring stay as they were.
\<close>

theorem onerror_only_logs:
  "console (onerror e s) = console s @ [e]
   \<and> (onerror e s)\<lparr>console := console s\<rparr> = s
   \<and> isLiveActive (onerror e s) = isLiveActive s
   \<and> sourcesRef (onerror e s) = sourcesRef s
   \<and> nextStartTimeRef (onerror e s) = nextStartTimeRef s
   \<and> sessions_closed (onerror e s) = sessions_closed s
   \<and> scriptProcessor (onerror e s) = scriptProcessor s"
  by (simp add: onerror_def)

text \<open>
  C5, as the code has it: a first click on the button starts a session; until
  \<^verbatim>\<open>onopen\<close> runs \<^verbatim>\<open>isLiveActive\<close> is still false, so a second click starts again:
  a second session is opened, \<^verbatim>\<open>liveSessionRef\<close> is overwritten and no session is
  closed.
\<close>

theorem second_start_before_onopen_connects:
  "\<not> isLiveActive (onClick Connected initial_state)
   \<and> sessions_opened (onClick Connected initial_state) = 1
   \<and> liveSessionRef (onClick Connected initial_state) = Some 0
   \<and> sessions_opened (onClick Connected (onClick Connected initial_state)) = 2
   \<and> liveSessionRef (onClick Connected (onClick Connected initial_state)) = Some 1
   \<and> sessions_closed (onClick Connected (onClick Connected initial_state)) = {}"
  by (simp add: onClick_def startLive_def initial_state_def)

text \<open>
  C5, amended: the start of a session is guarded by \<^verbatim>\<open>isLiveActive\<close> alone, at the
  button. While \<^verbatim>\<open>isLiveActive\<close> is true a click runs \<^verbatim>\<open>stopLive\<close>, never
  \<^verbatim>\<open>startLive\<close>: it opens no session and keeps the session handle, the transcript and
  the playback set, and it ends the active session. While \<^verbatim>\<open>isLiveActive\<close> is false,
  which it still is between a start and \<^verbatim>\<open>onopen\<close>, a click runs \<^verbatim>\<open>startLive\<close>, which
  leaves \<^verbatim>\<open>isLiveActive\<close> false and, when the microphone and the connection are
  granted, opens one more session and closes none; two such clicks in a row open two.
\<close>

theorem start_guarded_by_isLiveActive_only:
  "(isLiveActive s \<longrightarrow>
      onClick outcome s = stopLive s
      \<and> sessions_opened (onClick outcome s) = sessions_opened s
      \<and> liveSessionRef (onClick outcome s) = liveSessionRef s
      \<and> liveTranscription (onClick outcome s) = liveTranscription s
      \<and> sourcesRef (onClick outcome s) = sourcesRef s
      \<and> \<not> isLiveActive (onClick outcome s))
   \<and> (\<not> isLiveActive s \<longrightarrow>
      onClick outcome s = startLive outcome s
      \<and> \<not> isLiveActive (onClick outcome s)
      \<and> sessions_opened (onClick Connected s) = sessions_opened s + 1
      \<and> liveSessionRef (onClick Connected s) = Some (sessions_opened s)
      \<and> sessions_closed (onClick Connected s) = sessions_closed s
      \<and> sessions_opened (onClick Connected (onClick Connected s)) = sessions_opened s + 2
      \<and> liveSessionRef (onClick Connected (onClick Connected s)) = Some (sessions_opened s + 1)
      \<and> sessions_closed (onClick Connected (onClick Connected s)) = sessions_closed s)"
  by (simp add: onClick_def stopLive_def startLive_def Let_def split: start_outcome.splits)

text \<open>
  In the session with one buffer playing a click stops the session; in the state at
  mount two clicks open sessions 0 and 1.
\<close>

theorem start_guarded_by_isLiveActive_only_witness:
  "isLiveActive one_playing
   \<and> onClick Connected one_playing = stopLive one_playing
   \<and> sessions_opened (onClick Connected one_playing) = 1
   \<and> \<not> isLiveActive (onClick Connected one_playing)
   \<and> sessions_closed (onClick Connected one_playing) = {0}
   \<and> \<not> isLiveActive initial_state
   \<and> \<not> isLiveActive (onClick Connected initial_state)
   \<and> sessions_opened (onClick Connected (onClick Connected initial_state)) = 2
   \<and> liveSessionRef (onClick Connected (onClick Connected initial_state)) = Some 1
   \<and> sessions_closed (onClick Connected (onClick Connected initial_state)) = {}"
proof -
  have h1: "isLiveActive one_playing"
    by (simp add: one_playing_eq)
  have h2: "\<not> isLiveActive initial_state"
    by (simp add: initial_state_def)
  have v: "sessions_closed (stopLive one_playing) = {0}" "sessions_opened one_playing = 1"
    "sessions_opened initial_state = 0" "sessions_closed initial_state = {}"
    by (simp_all add: one_playing_eq stopLive_def initial_state_def)
  from start_guarded_by_isLiveActive_only [of one_playing Connected]
    start_guarded_by_isLiveActive_only [of initial_state Connected] h1 h2 v
  show ?thesis
    by (simp add: onClick_def stopLive_def startLive_def initial_state_def)
qed



end
